theory Spec2Isabelle
  imports Complex_Main "HOL-Library.Word"
begin

unbundle bit_operations_syntax

section \<open>Machine types\<close>

text \<open>
  The firmware targets an 8-bit AVR board: \<open>byte\<close> and \<open>uint8_t\<close> are 8-bit
  unsigned, \<open>signed char\<close> is 8-bit two's complement (read with \<open>sint\<close>),
  \<open>unsigned int\<close> is 16 bits and \<open>unsigned long\<close> (the type of \<open>millis()\<close>)
  is 32 bits. Values of the enum \<open>key\<close> and the accumulators \<open>dpad_x\<close>,
  \<open>dpad_y\<close> are C \<open>int\<close>s; they stay within \<open>[-2, 2]\<close> (lemmas below), so
  they are modelled as \<open>int\<close>.
\<close>

type_synonym byte = "8 word"
type_synonym schar = "8 word"
type_synonym uint = "16 word"
type_synonym ulong = "32 word"

section \<open>Keys (keys.h)\<close>

definition N_BUTTONS :: nat where "N_BUTTONS = 15"
definition N_KEYS :: nat where "N_KEYS = 42"
definition N_KEYS_PER_BUTTON :: nat where "N_KEYS_PER_BUTTON = 3"
definition N_REMAPPINGS :: nat where "N_REMAPPINGS = 16"

definition K_NOOP :: int where "K_NOOP = 0"
definition K_DP_UP :: int where "K_DP_UP = 1"
definition K_DP_UP_RIGHT :: int where "K_DP_UP_RIGHT = 2"
definition K_DP_RIGHT :: int where "K_DP_RIGHT = 3"
definition K_DP_DOWN_RIGHT :: int where "K_DP_DOWN_RIGHT = 4"
definition K_DP_DOWN :: int where "K_DP_DOWN = 5"
definition K_DP_DOWN_LEFT :: int where "K_DP_DOWN_LEFT = 6"
definition K_DP_LEFT :: int where "K_DP_LEFT = 7"
definition K_DP_UP_LEFT :: int where "K_DP_UP_LEFT = 8"
definition K_DP_CENTER :: int where "K_DP_CENTER = 9"
definition K_A :: int where "K_A = 10"
definition K_B :: int where "K_B = 11"
definition K_X :: int where "K_X = 12"
definition K_Y :: int where "K_Y = 13"
definition K_L :: int where "K_L = 14"
definition K_R :: int where "K_R = 15"
definition K_ZL :: int where "K_ZL = 16"
definition K_ZR :: int where "K_ZR = 17"
definition K_HOME :: int where "K_HOME = 18"
definition K_PLUS :: int where "K_PLUS = 19"
definition K_MINUS :: int where "K_MINUS = 20"
definition K_LS_PRESS :: int where "K_LS_PRESS = 21"
definition K_RS_PRESS :: int where "K_RS_PRESS = 22"
definition K_CAPTURE :: int where "K_CAPTURE = 23"

lemmas key_defs =
  K_NOOP_def K_DP_UP_def K_DP_UP_RIGHT_def K_DP_RIGHT_def K_DP_DOWN_RIGHT_def
  K_DP_DOWN_def K_DP_DOWN_LEFT_def K_DP_LEFT_def K_DP_UP_LEFT_def K_DP_CENTER_def
  K_A_def K_B_def K_X_def K_Y_def K_L_def K_R_def K_ZL_def K_ZR_def K_HOME_def
  K_PLUS_def K_MINUS_def K_LS_PRESS_def K_RS_PRESS_def K_CAPTURE_def

definition IS_NOOP :: "int \<Rightarrow> bool" where
  "IS_NOOP K = (K = K_NOOP)"

definition IS_BUTTON :: "int \<Rightarrow> bool" where
  "IS_BUTTON K = (K_A \<le> K \<and> K \<le> K_CAPTURE)"

definition IS_DP :: "int \<Rightarrow> bool" where
  "IS_DP K = (K_DP_UP \<le> K \<and> K \<le> K_DP_CENTER)"

section \<open>The gamepad (stubs.cpp) and the key table (globals.h)\<close>

text \<open>
  \<open>NSGamepad\<close> belongs to an external HID library; the repository only has the test
  stub, whose methods log their call. The model records the calls the firmware makes, in
  order. The numeric values of the pad constants are those of the stub's enum
  \<open>NSGamepad_values\<close>.
\<close>

datatype gp_call = ReleaseAll | Press byte | DPad byte | Loop

definition NSGAMEPAD_DPAD_UP :: byte where "NSGAMEPAD_DPAD_UP = 0"
definition NSGAMEPAD_DPAD_UP_RIGHT :: byte where "NSGAMEPAD_DPAD_UP_RIGHT = 1"
definition NSGAMEPAD_DPAD_RIGHT :: byte where "NSGAMEPAD_DPAD_RIGHT = 2"
definition NSGAMEPAD_DPAD_DOWN_RIGHT :: byte where "NSGAMEPAD_DPAD_DOWN_RIGHT = 3"
definition NSGAMEPAD_DPAD_DOWN :: byte where "NSGAMEPAD_DPAD_DOWN = 4"
definition NSGAMEPAD_DPAD_DOWN_LEFT :: byte where "NSGAMEPAD_DPAD_DOWN_LEFT = 5"
definition NSGAMEPAD_DPAD_LEFT :: byte where "NSGAMEPAD_DPAD_LEFT = 6"
definition NSGAMEPAD_DPAD_UP_LEFT :: byte where "NSGAMEPAD_DPAD_UP_LEFT = 7"
definition NSGAMEPAD_DPAD_CENTERED :: byte where "NSGAMEPAD_DPAD_CENTERED = 8"
definition NSButton_A :: byte where "NSButton_A = 9"
definition NSButton_B :: byte where "NSButton_B = 10"
definition NSButton_X :: byte where "NSButton_X = 11"
definition NSButton_Y :: byte where "NSButton_Y = 12"
definition NSButton_LeftThrottle :: byte where "NSButton_LeftThrottle = 13"
definition NSButton_RightThrottle :: byte where "NSButton_RightThrottle = 14"
definition NSButton_LeftTrigger :: byte where "NSButton_LeftTrigger = 15"
definition NSButton_RightTrigger :: byte where "NSButton_RightTrigger = 16"
definition NSButton_Home :: byte where "NSButton_Home = 17"
definition NSButton_Plus :: byte where "NSButton_Plus = 18"
definition NSButton_Minus :: byte where "NSButton_Minus = 19"
definition NSButton_LeftStick :: byte where "NSButton_LeftStick = 20"
definition NSButton_RightStick :: byte where "NSButton_RightStick = 21"
definition NSButton_Capture :: byte where "NSButton_Capture = 22"

lemmas pad_defs =
  NSGAMEPAD_DPAD_UP_def NSGAMEPAD_DPAD_UP_RIGHT_def NSGAMEPAD_DPAD_RIGHT_def
  NSGAMEPAD_DPAD_DOWN_RIGHT_def NSGAMEPAD_DPAD_DOWN_def NSGAMEPAD_DPAD_DOWN_LEFT_def
  NSGAMEPAD_DPAD_LEFT_def NSGAMEPAD_DPAD_UP_LEFT_def NSGAMEPAD_DPAD_CENTERED_def
  NSButton_A_def NSButton_B_def NSButton_X_def NSButton_Y_def
  NSButton_LeftThrottle_def NSButton_RightThrottle_def NSButton_LeftTrigger_def
  NSButton_RightTrigger_def NSButton_Home_def NSButton_Plus_def NSButton_Minus_def
  NSButton_LeftStick_def NSButton_RightStick_def NSButton_Capture_def

text \<open>
  \<open>KEYS2PAD\<close> has \<open>N_KEYS\<close> entries; the initialiser lists 24 and the rest
  (the analog sticks) are zero.
\<close>

definition KEYS2PAD :: "byte list" where
  "KEYS2PAD =
     [0,
      NSGAMEPAD_DPAD_UP, NSGAMEPAD_DPAD_UP_RIGHT, NSGAMEPAD_DPAD_RIGHT,
      NSGAMEPAD_DPAD_DOWN_RIGHT, NSGAMEPAD_DPAD_DOWN, NSGAMEPAD_DPAD_DOWN_LEFT,
      NSGAMEPAD_DPAD_LEFT, NSGAMEPAD_DPAD_UP_LEFT, NSGAMEPAD_DPAD_CENTERED,
      NSButton_A, NSButton_B, NSButton_X, NSButton_Y,
      NSButton_LeftTrigger, NSButton_RightTrigger,
      NSButton_LeftThrottle, NSButton_RightThrottle,
      NSButton_Home, NSButton_Plus, NSButton_Minus,
      NSButton_LeftStick, NSButton_RightStick, NSButton_Capture]
     @ replicate 18 0"

section \<open>Resolving one key (key_handler.h)\<close>

text \<open>
  The part of a loop iteration that \<open>HANDLE_KEY\<close> reads and writes: the calls made
  to the gamepad so far and the two accumulators.
\<close>

record frame =
  calls :: "gp_call list"
  dpad_x :: int
  dpad_y :: int

text \<open>The \<open>switch (_k)\<close> of the macro; a value with no \<open>case\<close> falls through.\<close>

definition dp_switch :: "int \<Rightarrow> frame \<Rightarrow> frame" where
  "dp_switch k f =
     (if k = K_DP_UP then f\<lparr>dpad_y := dpad_y f + 1\<rparr>
      else if k = K_DP_DOWN then f\<lparr>dpad_y := dpad_y f - 1\<rparr>
      else if k = K_DP_LEFT then f\<lparr>dpad_x := dpad_x f - 1\<rparr>
      else if k = K_DP_RIGHT then f\<lparr>dpad_x := dpad_x f + 1\<rparr>
      else if k = K_DP_UP_RIGHT then f\<lparr>dpad_y := dpad_y f + 1, dpad_x := dpad_x f + 1\<rparr>
      else if k = K_DP_DOWN_RIGHT then f\<lparr>dpad_y := dpad_y f - 1, dpad_x := dpad_x f + 1\<rparr>
      else if k = K_DP_UP_LEFT then f\<lparr>dpad_y := dpad_y f + 1, dpad_x := dpad_x f - 1\<rparr>
      else if k = K_DP_DOWN_LEFT then f\<lparr>dpad_y := dpad_y f - 1, dpad_x := dpad_x f - 1\<rparr>
      else f)"

text \<open>The two clamping statements that close the \<open>IS_DP\<close> branch.\<close>

definition clamp_x :: "frame \<Rightarrow> frame" where
  "clamp_x f =
     (if dpad_x f > 1 then f\<lparr>dpad_x := 1\<rparr>
      else if dpad_x f < - 1 then f\<lparr>dpad_x := - 1\<rparr> else f)"

definition clamp_y :: "frame \<Rightarrow> frame" where
  "clamp_y f =
     (if dpad_y f > 1 then f\<lparr>dpad_y := 1\<rparr>
      else if dpad_y f < - 1 then f\<lparr>dpad_y := - 1\<rparr> else f)"

text \<open>
  The body of \<open>HANDLE_KEY\<close> once \<open>_k\<close> has been read. \<open>_k = -(_k)\<close> is
  computed in \<open>int\<close> and stored back into a \<open>signed char\<close>, which wraps for
  \<open>-128\<close>; word negation does the same.
\<close>

definition handle_k :: "bool \<Rightarrow> schar \<Rightarrow> frame \<Rightarrow> frame" where
  "handle_k tt k0 f =
     (let turboed = (sint k0 < 0);
          k = (if sint k0 < 0 then - k0 else k0)
      in if (\<not> turboed \<or> tt) \<and> IS_BUTTON (sint k)
         then f\<lparr>calls := calls f @ [Press (KEYS2PAD ! nat (sint k))]\<rparr>
         else if IS_DP (sint k) then clamp_y (clamp_x (dp_switch (sint k) f))
         else f)"

definition HANDLE_KEY :: "bool \<Rightarrow> schar list \<Rightarrow> nat \<Rightarrow> frame \<Rightarrow> frame" where
  "HANDLE_KEY tt KEYID B f = handle_k tt (KEYID ! B) f"

section \<open>Pins of the port expander (mcp.h)\<close>

definition IS_GPIOA_PIN :: "nat \<Rightarrow> bool" where
  "IS_GPIOA_PIN PIN = (0 \<le> PIN \<and> PIN < 8)"

definition IS_GPIOB_PIN :: "nat \<Rightarrow> bool" where
  "IS_GPIOB_PIN PIN = (8 \<le> PIN \<and> PIN < 16)"

text \<open>
  \<open>0x01 << (PIN)\<close> is an \<open>int\<close>. Every pin the firmware passes is below 16, so
  the shift amount is below 8 (and \<open>PIN - 8\<close> is only computed for \<open>PIN \<ge> 8\<close>).
\<close>

definition PIN2BITMASK :: "nat \<Rightarrow> int" where
  "PIN2BITMASK PIN = (if IS_GPIOA_PIN PIN then push_bit PIN 1 else push_bit (PIN - 8) 1)"

section \<open>Globals (globals.h)\<close>

text \<open>
  \<open>TURBO_PERIOD\<close> is the floating-point constant \<open>1.6*1000.0/120.0\<close>, about
  13.33. It is only ever compared with an integer number of milliseconds; the comparison
  comes out the same for the exact quotient and for its nearest floating-point value
  (single or double precision), both lying strictly between 13 and 14.
\<close>

definition TURBO_PERIOD :: real where
  "TURBO_PERIOD = 1.6 * 1000.0 / 120.0"

definition DEBOUNCING :: nat where "DEBOUNCING = 5"

definition BUTTON2MCP :: "nat list" where
  "BUTTON2MCP = [11, 12, 13, 7, 0, 1, 2, 8, 3, 4, 5, 6, 9, 10, 15]"

definition P_CFG_4 :: nat where "P_CFG_4 = 14"

record globals =
  TT :: bool
  last_toggle_time :: ulong
  CFG :: uint
  KEY1 :: "schar list"
  KEY2 :: "schar list"
  KEY3 :: "schar list"
  GPIOA_state :: byte
  GPIOA_previous :: byte
  GPIOB_state :: byte
  GPIOB_previous :: byte
  GPIOA_last_debounce_time :: ulong
  GPIOB_last_debounce_time :: ulong

text \<open>The initialisers of the globals; \<open>CFG\<close> has none and starts as zero.\<close>

definition init_globals :: globals where
  "init_globals =
     \<lparr>TT = False, last_toggle_time = 0, CFG = 0,
      KEY1 = replicate N_BUTTONS 0, KEY2 = replicate N_BUTTONS 0,
      KEY3 = replicate N_BUTTONS 0,
      GPIOA_state = 0xff, GPIOA_previous = 0xff,
      GPIOB_state = 0xff, GPIOB_previous = 0xff,
      GPIOA_last_debounce_time = 0, GPIOB_last_debounce_time = 0\<rparr>"

section \<open>Startup (setup.h)\<close>

text \<open>
  The configuration number is built from four booleans: three from board pins and the
  fourth from bit \<open>P_CFG_4\<close> of the expander. The booleans are promoted to \<open>int\<close>,
  shifted and added, and the sum is stored in the \<open>unsigned int\<close> \<open>CFG\<close>.
\<close>

definition cfg_number :: "bool \<Rightarrow> bool \<Rightarrow> bool \<Rightarrow> bool \<Rightarrow> uint" where
  "cfg_number cfg1 cfg2 cfg3 cfg4 =
     word_of_int (push_bit 3 (of_bool cfg1) + push_bit 2 (of_bool cfg2)
                  + push_bit 1 (of_bool cfg3) + of_bool cfg4)"

definition cfg4_of :: "byte \<Rightarrow> bool" where
  "cfg4_of v = (uint v AND PIN2BITMASK P_CFG_4 = 0)"

text \<open>
  The loop that copies row \<open>CFG\<close> of \<open>MAPPINGS\<close> into the three key tables:
  \<open>KEYn[b] = CFG_MAPPING[3*b + n - 1]\<close> for every button \<open>b\<close>. The table
  \<open>MAPPINGS\<close> is a parameter: some of the sixteen included row files are not among
  the sources. By its declaration it has \<open>N_REMAPPINGS\<close> rows of
  \<open>N_KEYS_PER_BUTTON * N_BUTTONS\<close> entries. The byte \<open>v4\<close> is the reading of the
  expander on which the read-until-stable loop of lines 31 to 40 ends.
\<close>

definition startup :: "schar list list \<Rightarrow> bool \<Rightarrow> bool \<Rightarrow> bool \<Rightarrow> byte \<Rightarrow> globals \<Rightarrow> globals" where
  "startup MAPPINGS cfg1 cfg2 cfg3 v4 g =
     (let c = cfg_number cfg1 cfg2 cfg3 (cfg4_of v4);
          CFG_MAPPING = MAPPINGS ! unat c
      in g\<lparr>CFG := c,
           KEY1 := map (\<lambda>b. CFG_MAPPING ! (3 * b)) [0..<N_BUTTONS],
           KEY2 := map (\<lambda>b. CFG_MAPPING ! (3 * b + 1)) [0..<N_BUTTONS],
           KEY3 := map (\<lambda>b. CFG_MAPPING ! (3 * b + 2)) [0..<N_BUTTONS]\<rparr>)"

section \<open>One iteration of the control loop (main_loop.h)\<close>

text \<open>
  What one iteration reads from outside: the two bytes returned by \<open>Wire.read()\<close>
  and the value of \<open>millis()\<close> at each of its six call sites (lines 11, 12, 29, 31,
  34 and 39), which may differ since the clock runs during the iteration.
\<close>

record inputs =
  ms_turbo_test :: ulong
  ms_turbo_set :: ulong
  wire_gpioa :: byte
  wire_gpiob :: byte
  ms_a_reset :: ulong
  ms_b_reset :: ulong
  ms_a_test :: ulong
  ms_b_test :: ulong

text \<open>Lines 11 to 14: the turbo toggle.\<close>

definition turbo_toggle :: "inputs \<Rightarrow> globals \<Rightarrow> globals" where
  "turbo_toggle i g =
     (if TURBO_PERIOD \<le> real (unat (ms_turbo_test i - last_toggle_time g))
      then g\<lparr>last_toggle_time := ms_turbo_set i, TT := \<not> TT g\<rparr>
      else g)"

text \<open>Lines 17 to 24: both readings are stored into the state variables at once.\<close>

definition read_buttons :: "inputs \<Rightarrow> globals \<Rightarrow> globals" where
  "read_buttons i g = g\<lparr>GPIOA_state := wire_gpioa i, GPIOB_state := wire_gpiob i\<rparr>"

text \<open>Lines 26 to 46: debouncing.\<close>

definition debounce :: "inputs \<Rightarrow> globals \<Rightarrow> globals" where
  "debounce i g =
     (let reading_gpioa = wire_gpioa i;
          reading_gpiob = wire_gpiob i;
          g1 = (if reading_gpioa \<noteq> GPIOA_previous g
                then g\<lparr>GPIOA_last_debounce_time := ms_a_reset i\<rparr> else g);
          g2 = (if reading_gpiob \<noteq> GPIOB_previous g1
                then g1\<lparr>GPIOB_last_debounce_time := ms_b_reset i\<rparr> else g1);
          g3 = (if unat (ms_a_test i - GPIOA_last_debounce_time g2) > DEBOUNCING
                then (if reading_gpioa \<noteq> GPIOA_state g2
                      then g2\<lparr>GPIOA_state := reading_gpioa\<rparr> else g2)
                else g2);
          g4 = (if unat (ms_b_test i - GPIOB_last_debounce_time g3) > DEBOUNCING
                then (if reading_gpiob \<noteq> GPIOB_state g3
                      then g3\<lparr>GPIOB_state := reading_gpiob\<rparr> else g3)
                else g3)
      in g4\<lparr>GPIOA_previous := reading_gpioa, GPIOB_previous := reading_gpiob\<rparr>)"

text \<open>Lines 48 to 67: the loop over the buttons; \<open>button_body\<close> is one iteration.\<close>

definition pressed :: "globals \<Rightarrow> nat \<Rightarrow> bool" where
  "pressed g b =
     (let p = BUTTON2MCP ! b;
          gpio = (if IS_GPIOA_PIN p then GPIOA_state g else GPIOB_state g)
      in uint gpio AND PIN2BITMASK p = 0)"

definition button_body :: "globals \<Rightarrow> frame \<Rightarrow> nat \<Rightarrow> frame" where
  "button_body g f b =
     (if pressed g b
      then HANDLE_KEY (TT g) (KEY3 g) b
             (HANDLE_KEY (TT g) (KEY2 g) b (HANDLE_KEY (TT g) (KEY1 g) b f))
      else f)"

definition button_loop :: "globals \<Rightarrow> frame \<Rightarrow> frame" where
  "button_loop g f = foldl (button_body g) f [0..<N_BUTTONS]"

text \<open>
  Lines 69 to 98: the chain of tests on the accumulators. It has no final \<open>else\<close>: a
  vector matched by no test makes no call.
\<close>

definition socd :: "frame \<Rightarrow> frame" where
  "socd f =
     (let x = dpad_x f; y = dpad_y f;
          dPad = (\<lambda>k. f\<lparr>calls := calls f @ [DPad (KEYS2PAD ! nat k)]\<rparr>)
      in if x = 0 \<and> y = 0 then dPad K_DP_CENTER
         else if x = 0 \<and> y = 1 then dPad K_DP_UP
         else if x = 1 \<and> y = 1 then dPad K_DP_UP_RIGHT
         else if x = 1 \<and> y = 0 then dPad K_DP_RIGHT
         else if x = 1 \<and> y = - 1 then dPad K_DP_DOWN_RIGHT
         else if x = 0 \<and> y = - 1 then dPad K_DP_DOWN
         else if x = - 1 \<and> y = - 1 then dPad K_DP_DOWN_LEFT
         else if x = - 1 \<and> y = 0 then dPad K_DP_LEFT
         else if x = - 1 \<and> y = 1 then dPad K_DP_UP_LEFT
         else f)"

text \<open>
  The whole iteration. It returns the new globals, the calls made to the gamepad (in
  order) and the accumulators as they stand when the chain of tests is reached.
\<close>

definition tick_frame :: "inputs \<Rightarrow> globals \<Rightarrow> globals \<times> frame" where
  "tick_frame i g =
     (let f0 = \<lparr>calls = [ReleaseAll], dpad_x = 0, dpad_y = 0\<rparr>;
          g1 = debounce i (read_buttons i (turbo_toggle i g))
      in (g1, button_loop g1 f0))"

definition main_loop :: "inputs \<Rightarrow> globals \<Rightarrow> globals \<times> gp_call list" where
  "main_loop i g =
     (let (g1, f) = tick_frame i g
      in (g1, calls (socd f) @ [Loop]))"

text \<open>
  The control loop runs the iteration over and over; \<open>run\<close> lists the globals after
  each iteration, and \<open>toggles\<close> the values stored in \<open>last_toggle_time\<close> by the
  iterations that complemented \<open>TT\<close>.
\<close>

fun run :: "globals \<Rightarrow> inputs list \<Rightarrow> globals list" where
  "run g [] = []"
| "run g (i # is) = (let g' = fst (main_loop i g) in g' # run g' is)"

fun toggles :: "globals \<Rightarrow> inputs list \<Rightarrow> ulong list" where
  "toggles g [] = []"
| "toggles g (i # is) =
     (let g' = fst (main_loop i g)
      in (if TT g' \<noteq> TT g then [last_toggle_time g'] else []) @ toggles g' is)"

section \<open>A shipped row of the remapping table (remap00.h)\<close>

definition remap00 :: "schar list" where
  "remap00 = map word_of_int
     [K_DP_LEFT, K_NOOP, K_NOOP,
      K_DP_DOWN, K_NOOP, K_NOOP,
      K_DP_RIGHT, K_NOOP, K_NOOP,
      K_DP_UP, K_NOOP, K_NOOP,
      K_Y, K_NOOP, K_NOOP,
      K_B, K_NOOP, K_NOOP,
      K_R, K_NOOP, K_NOOP,
      K_ZL, K_NOOP, K_NOOP,
      K_L, K_NOOP, K_NOOP,
      K_X, K_NOOP, K_NOOP,
      K_A, K_NOOP, K_NOOP,
      K_ZR, K_NOOP, K_NOOP,
      K_MINUS, K_NOOP, K_NOOP,
      K_PLUS, K_NOOP, K_NOOP,
      K_HOME, K_NOOP, K_NOOP]"

section \<open>Notions of the specification\<close>

text \<open>
  The slots resolved in one iteration, in the order the loop visits them: the three keys
  of every pressed button.
\<close>

definition tick_slots :: "globals \<Rightarrow> schar list" where
  "tick_slots g =
     concat (map (\<lambda>b. if pressed g b then [KEY1 g ! b, KEY2 g ! b, KEY3 g ! b] else [])
                 [0..<N_BUTTONS])"

text \<open>
  The contribution of a directional key to each axis, as the specification words it: up
  is +1 on y, down is -1 on y, left is -1 on x, right is +1 on x, a diagonal contributes
  to both axes; any other key contributes nothing.
\<close>

definition dir_x :: "int \<Rightarrow> int" where
  "dir_x k =
     (if k = K_DP_RIGHT \<or> k = K_DP_UP_RIGHT \<or> k = K_DP_DOWN_RIGHT then 1
      else if k = K_DP_LEFT \<or> k = K_DP_UP_LEFT \<or> k = K_DP_DOWN_LEFT then - 1
      else 0)"

definition dir_y :: "int \<Rightarrow> int" where
  "dir_y k =
     (if k = K_DP_UP \<or> k = K_DP_UP_RIGHT \<or> k = K_DP_UP_LEFT then 1
      else if k = K_DP_DOWN \<or> k = K_DP_DOWN_RIGHT \<or> k = K_DP_DOWN_LEFT then - 1
      else 0)"

definition clamp1 :: "int \<Rightarrow> int" where
  "clamp1 v = (if v > 1 then 1 else if v < - 1 then - 1 else v)"

text \<open>The exact integer sums of the contributions of a list of slots.\<close>

definition sum_x :: "schar list \<Rightarrow> int" where
  "sum_x ks = sum_list (map (\<lambda>k. dir_x \<bar>sint k\<bar>) ks)"

definition sum_y :: "schar list \<Rightarrow> int" where
  "sum_y ks = sum_list (map (\<lambda>k. dir_y \<bar>sint k\<bar>) ks)"

text \<open>Summation with clamping after every single contribution.\<close>

definition sat_x :: "schar list \<Rightarrow> int" where
  "sat_x ks = foldl (\<lambda>a k. clamp1 (a + dir_x \<bar>sint k\<bar>)) 0 ks"

definition sat_y :: "schar list \<Rightarrow> int" where
  "sat_y ks = foldl (\<lambda>a k. clamp1 (a + dir_y \<bar>sint k\<bar>)) 0 ks"

text \<open>All running sums of a list of contributions, started at \<open>a\<close>, lie in \<open>[-1, 1]\<close>.\<close>

fun within1 :: "int \<Rightarrow> int list \<Rightarrow> bool" where
  "within1 a [] = True"
| "within1 a (c # cs) = (\<bar>a + c\<bar> \<le> 1 \<and> within1 (a + c) cs)"

text \<open>Both accumulators lie in \<open>{-1, 0, 1}\<close>.\<close>

definition in_range :: "frame \<Rightarrow> bool" where
  "in_range f = (\<bar>dpad_x f\<bar> \<le> 1 \<and> \<bar>dpad_y f\<bar> \<le> 1)"

text \<open>The nine canonical D-pad values: the eight compass points and the centre.\<close>

definition canonical_dpad :: "byte list" where
  "canonical_dpad =
     map (\<lambda>k. KEYS2PAD ! nat k)
       [K_DP_UP, K_DP_UP_RIGHT, K_DP_RIGHT, K_DP_DOWN_RIGHT, K_DP_DOWN,
        K_DP_DOWN_LEFT, K_DP_LEFT, K_DP_UP_LEFT, K_DP_CENTER]"

definition is_DPad :: "gp_call \<Rightarrow> bool" where
  "is_DPad c = (case c of DPad d \<Rightarrow> True | _ \<Rightarrow> False)"

text \<open>
  The press a slot resolves to, as the specification words it: a slot whose magnitude is
  an ordinary button presses it, a turbo-flagged (negative) one only while the turbo phase
  is hot; any other slot presses nothing.
\<close>

definition slot_press :: "bool \<Rightarrow> schar \<Rightarrow> byte list" where
  "slot_press tt k =
     (if IS_BUTTON \<bar>sint k\<bar> \<and> (0 \<le> sint k \<or> tt) then [KEYS2PAD ! nat \<bar>sint k\<bar>] else [])"

definition resolved_presses :: "globals \<Rightarrow> byte list" where
  "resolved_presses g = concat (map (slot_press (TT g)) (tick_slots g))"

text \<open>
  Modelled from the spec: the report sink behind \<open>NSGamepad\<close>, an external library of
  which the sources only have a logging stub. The report holds the set of pressed buttons
  and one D-pad direction; releasing all empties the set, a press adds to it, setting
  the D-pad replaces the direction, and \<open>loop\<close> hands the report over unchanged.
\<close>

record report =
  buttons :: "byte set"
  direction :: byte

fun sink :: "report \<Rightarrow> gp_call \<Rightarrow> report" where
  "sink r ReleaseAll = r\<lparr>buttons := {}\<rparr>"
| "sink r (Press b) = r\<lparr>buttons := insert b (buttons r)\<rparr>"
| "sink r (DPad d) = r\<lparr>direction := d\<rparr>"
| "sink r Loop = r"

text \<open>Successive toggle times are at least \<open>TURBO_PERIOD\<close> apart.\<close>

fun spaced :: "ulong list \<Rightarrow> bool" where
  "spaced (a # b # r) = (TURBO_PERIOD \<le> real (unat b) - real (unat a) \<and> spaced (b # r))"
| "spaced _ = True"

text \<open>The two clock readings of the turbo block, over a sequence of iterations.\<close>

definition turbo_reads :: "inputs list \<Rightarrow> ulong list" where
  "turbo_reads is = concat (map (\<lambda>i. [ms_turbo_test i, ms_turbo_set i]) is)"

section \<open>Concrete runs\<close>

text \<open>
  The globals after startup with all four configuration switches off, so that row 0 of
  the table is selected, and that row being \<open>remap00\<close>.
\<close>

definition remap00_globals :: globals where
  "remap00_globals =
     startup (replicate N_REMAPPINGS remap00) False False False 0xff init_globals"

text \<open>
  The inputs of an iteration during which the clock does not advance: every call of
  \<open>millis()\<close> returns \<open>t\<close>.
\<close>

definition at_ms :: "ulong \<Rightarrow> byte \<Rightarrow> byte \<Rightarrow> inputs" where
  "at_ms t a b =
     \<lparr>ms_turbo_test = t, ms_turbo_set = t, wire_gpioa = a, wire_gpiob = b,
      ms_a_reset = t, ms_b_reset = t, ms_a_test = t, ms_b_test = t\<rparr>"

section \<open>A row with direction macros (remap10.h)\<close>

definition remap10 :: "schar list" where
  "remap10 = map word_of_int
     [K_DP_LEFT, K_NOOP, K_NOOP,
      K_DP_DOWN, K_NOOP, K_NOOP,
      K_DP_RIGHT, K_NOOP, K_NOOP,
      K_DP_UP, K_NOOP, K_NOOP,
      K_B, K_NOOP, K_NOOP,
      K_Y, K_NOOP, K_NOOP,
      K_ZL, K_NOOP, K_NOOP,
      K_L, K_DP_UP, K_NOOP,
      K_A, K_DP_UP, K_NOOP,
      K_X, K_NOOP, K_NOOP,
      K_A, K_NOOP, K_NOOP,
      K_R, K_NOOP, K_NOOP,
      K_MINUS, K_NOOP, K_NOOP,
      K_PLUS, K_NOOP, K_NOOP,
      K_HOME, K_NOOP, K_NOOP]"

text \<open>
  The same row with one more macro of the same kind: button 9 presses X and also pushes
  the D-pad down (its second slot, entry \<open>3 * 9 + 1\<close> of the row).
\<close>

definition remap10_down :: "schar list" where
  "remap10_down = remap10[3 * 9 + 1 := word_of_int K_DP_DOWN]"

definition remap10_down_globals :: globals where
  "remap10_down_globals =
     startup (replicate N_REMAPPINGS remap10_down) False False False 0xff init_globals"

section \<open>Resolving one key: auxiliary facts\<close>

lemma sint_neg8: "sint (k::8 word) \<noteq> - 128 \<Longrightarrow> sint (- k) = - sint k"
  using sint_range_size [of k]
  by (simp add: sint_word_ariths signed_take_bit_int_eq_self_iff word_size)

lemma magnitude:
  fixes k :: schar
  assumes "sint k \<noteq> - 128"
  shows "sint (if sint k < 0 then - k else k) = \<bar>sint k\<bar>"
  using assms by (simp add: sint_neg8)

lemma magnitude_min:
  fixes k :: schar
  assumes "sint k = - 128"
  shows "sint (if sint k < 0 then - k else k) = - 128"
proof -
  have "sint k = sint (- 128 :: schar)" using assms by simp
  then have "k = - 128" by (rule signed_word_eqI)
  then show ?thesis by simp
qed

lemma handle_k_button:
  assumes "IS_BUTTON \<bar>sint k\<bar>"
  shows "handle_k tt k f =
           (if sint k < 0 \<and> \<not> tt then f
            else f\<lparr>calls := calls f @ [Press (KEYS2PAD ! nat \<bar>sint k\<bar>)]\<rparr>)"
proof -
  from assms have ne: "sint k \<noteq> - 128"
    by (auto simp: IS_BUTTON_def K_A_def K_CAPTURE_def)
  from assms have "\<not> IS_DP \<bar>sint k\<bar>"
    by (auto simp: IS_BUTTON_def IS_DP_def key_defs)
  with assms show ?thesis
    unfolding handle_k_def Let_def magnitude [OF ne] by auto
qed

lemma handle_k_dp:
  assumes "IS_DP \<bar>sint k\<bar>"
  shows "handle_k tt k f = clamp_y (clamp_x (dp_switch \<bar>sint k\<bar> f))"
proof -
  from assms have ne: "sint k \<noteq> - 128"
    by (auto simp: IS_DP_def key_defs)
  from assms have "\<not> IS_BUTTON \<bar>sint k\<bar>"
    by (auto simp: IS_BUTTON_def IS_DP_def key_defs)
  with assms show ?thesis
    unfolding handle_k_def Let_def magnitude [OF ne] by auto
qed

lemma handle_k_other:
  assumes "\<not> IS_BUTTON \<bar>sint k\<bar>" and "\<not> IS_DP \<bar>sint k\<bar>"
  shows "handle_k tt k f = f"
proof (cases "sint k = - 128")
  case True
  show ?thesis
    unfolding handle_k_def Let_def magnitude_min [OF True]
    by (simp add: IS_BUTTON_def IS_DP_def key_defs)
next
  case False
  with assms show ?thesis
    unfolding handle_k_def Let_def magnitude [OF False] by simp
qed

lemma resolve_dp:
  assumes "IS_DP k"
  shows "clamp_y (clamp_x (dp_switch k f)) =
           f\<lparr>dpad_x := clamp1 (dpad_x f + dir_x k), dpad_y := clamp1 (dpad_y f + dir_y k)\<rparr>"
proof -
  from assms have "k \<in> {1, 2, 3, 4, 5, 6, 7, 8, 9}"
    by (auto simp: IS_DP_def key_defs)
  then show ?thesis
    by (auto simp: dp_switch_def clamp_x_def clamp_y_def clamp1_def dir_x_def dir_y_def key_defs)
qed

lemma not_dp_dir: "\<not> IS_DP k \<Longrightarrow> dir_x k = 0 \<and> dir_y k = 0"
  by (auto simp: IS_DP_def dir_x_def dir_y_def key_defs)

lemma button_not_dp: "IS_BUTTON k \<Longrightarrow> \<not> IS_DP k"
  by (auto simp: IS_BUTTON_def IS_DP_def key_defs)

lemma handle_k_calls: "calls (handle_k tt k f) = calls f @ map Press (slot_press tt k)"
proof (cases "IS_BUTTON \<bar>sint k\<bar>")
  case True
  then show ?thesis by (auto simp: handle_k_button slot_press_def)
next
  case nb: False
  show ?thesis
  proof (cases "IS_DP \<bar>sint k\<bar>")
    case True
    then show ?thesis using nb by (simp add: handle_k_dp resolve_dp slot_press_def)
  next
    case False
    then show ?thesis using nb by (simp add: handle_k_other slot_press_def)
  qed
qed

lemma handle_k_acc:
  "dpad_x (handle_k tt k f) =
     (if IS_DP \<bar>sint k\<bar> then clamp1 (dpad_x f + dir_x \<bar>sint k\<bar>) else dpad_x f) \<and>
   dpad_y (handle_k tt k f) =
     (if IS_DP \<bar>sint k\<bar> then clamp1 (dpad_y f + dir_y \<bar>sint k\<bar>) else dpad_y f)"
proof (cases "IS_BUTTON \<bar>sint k\<bar>")
  case True
  then show ?thesis by (auto simp: handle_k_button button_not_dp)
next
  case nb: False
  show ?thesis
  proof (cases "IS_DP \<bar>sint k\<bar>")
    case True
    then show ?thesis by (simp add: handle_k_dp resolve_dp)
  next
    case False
    then show ?thesis using nb by (simp add: handle_k_other)
  qed
qed

lemma clamp1_id: "\<bar>v\<bar> \<le> 1 \<Longrightarrow> clamp1 v = v"
  by (auto simp: clamp1_def)

lemma clamp1_range: "\<bar>clamp1 v\<bar> \<le> 1"
  by (auto simp: clamp1_def)

lemma handle_k_in_range:
  assumes "in_range f"
  shows "in_range (handle_k tt k f)"
  using assms handle_k_acc [of tt k f]
  by (auto simp: in_range_def clamp1_range)

lemma handle_k_acc_in_range:
  assumes "in_range f"
  shows "dpad_x (handle_k tt k f) = clamp1 (dpad_x f + dir_x \<bar>sint k\<bar>) \<and>
         dpad_y (handle_k tt k f) = clamp1 (dpad_y f + dir_y \<bar>sint k\<bar>)"
  using assms handle_k_acc [of tt k f] not_dp_dir [of "\<bar>sint k\<bar>"]
  by (auto simp: in_range_def clamp1_id)

lemma button_body_fold:
  "button_body g f b =
     foldl (\<lambda>f k. handle_k (TT g) k f) f
       (if pressed g b then [KEY1 g ! b, KEY2 g ! b, KEY3 g ! b] else [])"
  by (simp add: button_body_def HANDLE_KEY_def)

lemma buttons_fold:
  "foldl (button_body g) f bs =
     foldl (\<lambda>f k. handle_k (TT g) k f) f
       (concat (map (\<lambda>b. if pressed g b then [KEY1 g ! b, KEY2 g ! b, KEY3 g ! b] else []) bs))"
proof (induction bs arbitrary: f)
  case Nil
  show ?case by simp
next
  case (Cons b bs)
  show ?case
    unfolding list.map concat.simps foldl_append foldl_Cons Cons.IH
    by (simp only: button_body_fold)
qed

lemma button_loop_fold:
  "button_loop g f = foldl (\<lambda>f k. handle_k (TT g) k f) f (tick_slots g)"
  by (simp only: button_loop_def tick_slots_def buttons_fold)

lemma fold_calls:
  "calls (foldl (\<lambda>f k. handle_k tt k f) f ks) =
     calls f @ map Press (concat (map (slot_press tt) ks))"
  by (induction ks arbitrary: f) (simp_all add: handle_k_calls)

lemma fold_in_range:
  "in_range f \<Longrightarrow> in_range (foldl (\<lambda>f k. handle_k tt k f) f ks)"
  by (induction ks arbitrary: f) (simp_all add: handle_k_in_range)

lemma fold_acc:
  "in_range f \<Longrightarrow>
     dpad_x (foldl (\<lambda>f k. handle_k tt k f) f ks) =
       foldl (\<lambda>a k. clamp1 (a + dir_x \<bar>sint k\<bar>)) (dpad_x f) ks \<and>
     dpad_y (foldl (\<lambda>f k. handle_k tt k f) f ks) =
       foldl (\<lambda>a k. clamp1 (a + dir_y \<bar>sint k\<bar>)) (dpad_y f) ks"
proof (induction ks arbitrary: f)
  case Nil
  show ?case by simp
next
  case (Cons k ks)
  from Cons.prems have "in_range (handle_k tt k f)" by (rule handle_k_in_range)
  from Cons.IH [OF this] show ?case
    using handle_k_acc_in_range [OF Cons.prems, of tt k] by simp
qed

lemma buttons_in_range:
  "in_range f \<Longrightarrow> in_range (foldl (button_body g) f bs)"
  unfolding buttons_fold by (rule fold_in_range)

lemma frame0_in_range: "in_range \<lparr>calls = cs, dpad_x = 0, dpad_y = 0\<rparr>"
  by (simp add: in_range_def)

lemma tick_frame_fold:
  "snd (tick_frame i g) =
     foldl (\<lambda>f k. handle_k (TT (fst (tick_frame i g))) k f)
       \<lparr>calls = [ReleaseAll], dpad_x = 0, dpad_y = 0\<rparr> (tick_slots (fst (tick_frame i g)))"
  by (simp add: tick_frame_def Let_def button_loop_fold)

lemma tick_frame_in_range: "in_range (snd (tick_frame i g))"
  unfolding tick_frame_fold by (rule fold_in_range) (rule frame0_in_range)

lemma tick_frame_calls:
  "calls (snd (tick_frame i g)) = ReleaseAll # map Press (resolved_presses (fst (tick_frame i g)))"
  unfolding tick_frame_fold fold_calls resolved_presses_def by simp

lemma length_KEYS2PAD: "length KEYS2PAD = N_KEYS"
  by (simp add: KEYS2PAD_def N_KEYS_def)

lemma canonical_dpad_eq:
  "canonical_dpad =
     [NSGAMEPAD_DPAD_UP, NSGAMEPAD_DPAD_UP_RIGHT, NSGAMEPAD_DPAD_RIGHT,
      NSGAMEPAD_DPAD_DOWN_RIGHT, NSGAMEPAD_DPAD_DOWN, NSGAMEPAD_DPAD_DOWN_LEFT,
      NSGAMEPAD_DPAD_LEFT, NSGAMEPAD_DPAD_UP_LEFT, NSGAMEPAD_DPAD_CENTERED]"
  by (simp add: canonical_dpad_def KEYS2PAD_def key_defs)

lemma distinct_canonical_dpad: "distinct canonical_dpad"
  by (simp add: canonical_dpad_eq pad_defs)

lemma range_cases:
  assumes "in_range f"
  obtains "dpad_x f = 0" "dpad_y f = 0" | "dpad_x f = 0" "dpad_y f = 1"
    | "dpad_x f = 1" "dpad_y f = 1" | "dpad_x f = 1" "dpad_y f = 0"
    | "dpad_x f = 1" "dpad_y f = - 1" | "dpad_x f = 0" "dpad_y f = - 1"
    | "dpad_x f = - 1" "dpad_y f = - 1" | "dpad_x f = - 1" "dpad_y f = 0"
    | "dpad_x f = - 1" "dpad_y f = 1"
proof -
  from assms have "dpad_x f = - 1 \<or> dpad_x f = 0 \<or> dpad_x f = 1"
    and "dpad_y f = - 1 \<or> dpad_y f = 0 \<or> dpad_y f = 1"
    by (auto simp: in_range_def)
  then show thesis using that by blast
qed

text \<open>On accumulators in range the chain of tests makes one call, with a canonical value.\<close>

lemma socd_selects:
  assumes "in_range f"
  shows "\<exists>d. d \<in> set canonical_dpad \<and> socd f = f\<lparr>calls := calls f @ [DPad d]\<rparr>"
  using assms
  by (cases f rule: range_cases) (auto simp: socd_def canonical_dpad_def)

lemma socd_injective:
  assumes "in_range f" and "in_range f'"
    and "last (calls (socd f)) = last (calls (socd f'))"
  shows "dpad_x f = dpad_x f' \<and> dpad_y f = dpad_y f'"
proof (rule range_cases [OF assms(1)]; rule range_cases [OF assms(2)])
qed (use assms(3) in \<open>simp_all add: socd_def KEYS2PAD_def key_defs pad_defs\<close>)

section \<open>One iteration: auxiliary facts\<close>

lemma main_loop_fst: "fst (main_loop i g) = fst (tick_frame i g)"
  by (simp add: main_loop_def split_beta)

lemma main_loop_snd: "snd (main_loop i g) = calls (socd (snd (tick_frame i g))) @ [Loop]"
  by (simp add: main_loop_def split_beta)

lemma main_loop_calls:
  "\<exists>d. d \<in> set canonical_dpad \<and>
     snd (main_loop i g) =
       ReleaseAll # map Press (resolved_presses (fst (main_loop i g))) @ [DPad d, Loop]"
proof -
  from socd_selects [OF tick_frame_in_range, of i g]
  obtain d where "d \<in> set canonical_dpad"
    and "socd (snd (tick_frame i g)) =
           (snd (tick_frame i g))\<lparr>calls := calls (snd (tick_frame i g)) @ [DPad d]\<rparr>"
    by blast
  then show ?thesis
    by (auto simp: main_loop_snd main_loop_fst tick_frame_calls)
qed

lemma sink_presses:
  "buttons (foldl sink r (map Press ps)) = buttons r \<union> set ps \<and>
   direction (foldl sink r (map Press ps)) = direction r"
  by (induction ps arbitrary: r) auto

lemma sink_tick:
  "buttons (foldl sink r (ReleaseAll # map Press ps @ [DPad d, Loop])) = set ps \<and>
   direction (foldl sink r (ReleaseAll # map Press ps @ [DPad d, Loop])) = d"
  by (simp add: sink_presses)

lemma is_DPad_tick:
  "filter is_DPad (ReleaseAll # map Press ps @ [DPad d, Loop]) = [DPad d]"
  by (induction ps) (simp_all add: is_DPad_def)

lemma within1_fold:
  "within1 a cs \<Longrightarrow> foldl (\<lambda>a c. clamp1 (a + c)) a cs = a + sum_list cs"
proof (induction cs arbitrary: a)
  case Nil
  show ?case by simp
next
  case (Cons c cs)
  from Cons.prems have "\<bar>a + c\<bar> \<le> 1" and "within1 (a + c) cs" by simp_all
  then show ?case using Cons.IH [of "a + c"] by (simp add: clamp1_id)
qed

lemma within1_bound:
  "within1 a cs \<Longrightarrow> \<bar>a\<bar> \<le> 1 \<Longrightarrow> \<bar>a + sum_list cs\<bar> \<le> 1"
proof (induction cs arbitrary: a)
  case Nil
  then show ?case by simp
next
  case (Cons c cs)
  from Cons.prems have "\<bar>a + c\<bar> \<le> 1" and "within1 (a + c) cs" by simp_all
  from Cons.IH [OF this(2) this(1)] show ?case by (simp add: add.assoc)
qed

lemma within1_clamp:
  assumes "within1 0 cs"
  shows "foldl (\<lambda>a c. clamp1 (a + c)) 0 cs = clamp1 (sum_list cs)"
  using within1_fold [OF assms] within1_bound [OF assms] by (simp add: clamp1_id)

lemma tick_frame_acc:
  "dpad_x (snd (tick_frame i g)) = sat_x (tick_slots (fst (tick_frame i g))) \<and>
   dpad_y (snd (tick_frame i g)) = sat_y (tick_slots (fst (tick_frame i g)))"
  unfolding sat_x_def sat_y_def
  using fold_acc [OF frame0_in_range, of "TT (fst (tick_frame i g))" "[ReleaseAll]"
      "tick_slots (fst (tick_frame i g))"]
  by (simp add: tick_frame_fold [symmetric])

lemma slot_in_tick_slots:
  assumes "B < N_BUTTONS" and "pressed g B"
    and "KEYID \<in> {KEY1 g, KEY2 g, KEY3 g}"
  shows "KEYID ! B \<in> set (tick_slots g)"
  using assms by (auto simp: tick_slots_def)

lemma press_in_main_loop:
  assumes "k \<in> set (tick_slots (fst (main_loop i g)))"
    and "p \<in> set (slot_press (TT (fst (main_loop i g))) k)"
  shows "Press p \<in> set (snd (main_loop i g))"
proof -
  from assms have "p \<in> set (resolved_presses (fst (main_loop i g)))"
    by (auto simp: resolved_presses_def)
  with main_loop_calls [of i g] show ?thesis by auto
qed

section \<open>The turbo toggle and the debouncing: auxiliary facts\<close>

lemma debounce_turbo:
  "TT (debounce i g) = TT g \<and> last_toggle_time (debounce i g) = last_toggle_time g"
  by (simp add: debounce_def Let_def)

lemma debounce_states:
  "GPIOA_state g = wire_gpioa i \<Longrightarrow> GPIOB_state g = wire_gpiob i \<Longrightarrow>
     GPIOA_state (debounce i g) = wire_gpioa i \<and> GPIOB_state (debounce i g) = wire_gpiob i"
  by (simp add: debounce_def Let_def)

lemma main_loop_states:
  "GPIOA_state (fst (main_loop i g)) = wire_gpioa i \<and>
   GPIOB_state (fst (main_loop i g)) = wire_gpiob i"
  by (simp add: main_loop_fst tick_frame_def Let_def debounce_states read_buttons_def)

lemma main_loop_turbo:
  "TT (fst (main_loop i g)) = TT (turbo_toggle i g) \<and>
   last_toggle_time (fst (main_loop i g)) = last_toggle_time (turbo_toggle i g)"
  by (simp add: main_loop_fst tick_frame_def Let_def debounce_turbo read_buttons_def)

lemma main_loop_TT:
  "TT (fst (main_loop i g)) =
     (if TURBO_PERIOD \<le> real (unat (ms_turbo_test i - last_toggle_time g))
      then \<not> TT g else TT g)"
  by (simp add: main_loop_turbo turbo_toggle_def)

lemma main_loop_last:
  "last_toggle_time (fst (main_loop i g)) =
     (if TURBO_PERIOD \<le> real (unat (ms_turbo_test i - last_toggle_time g))
      then ms_turbo_set i else last_toggle_time g)"
  by (simp add: main_loop_turbo turbo_toggle_def)

lemma run_toggles_cong:
  assumes "map (\<lambda>i. (ms_turbo_test i, ms_turbo_set i)) is =
           map (\<lambda>i. (ms_turbo_test i, ms_turbo_set i)) is'"
    and "TT g = TT g'" and "last_toggle_time g = last_toggle_time g'"
  shows "map TT (run g is) = map TT (run g' is') \<and> toggles g is = toggles g' is'"
  using assms
proof (induction "is" arbitrary: is' g g')
  case Nil
  then show ?case by simp
next
  case (Cons i "is")
  from Cons.prems(1) obtain i' js where is': "is' = i' # js"
    and t: "ms_turbo_test i = ms_turbo_test i'" "ms_turbo_set i = ms_turbo_set i'"
    and m: "map (\<lambda>i. (ms_turbo_test i, ms_turbo_set i)) is =
            map (\<lambda>i. (ms_turbo_test i, ms_turbo_set i)) js"
    by (cases is') auto
  have a: "TT (fst (main_loop i g)) = TT (fst (main_loop i' g'))"
    and b: "last_toggle_time (fst (main_loop i g)) = last_toggle_time (fst (main_loop i' g'))"
    using t Cons.prems(2,3) by (simp_all add: main_loop_TT main_loop_last)
  from Cons.IH [OF m a b] a b Cons.prems(2) show ?case
    unfolding is' by (simp add: Let_def)
qed

lemma length_toggles: "length (toggles g is) \<le> length is"
  by (induction "is" arbitrary: g) (simp_all add: Let_def le_SucI)

lemma spaced_Cons:
  assumes "spaced ts"
    and "\<And>t. t \<in> set ts \<Longrightarrow> TURBO_PERIOD \<le> real (unat t) - real (unat a)"
  shows "spaced (a # ts)"
  using assms by (cases ts) simp_all

lemma toggles_after:
  assumes "sorted (map unat (last_toggle_time g # turbo_reads is))"
    and "t \<in> set (toggles g is)"
  shows "TURBO_PERIOD \<le> real (unat t) - real (unat (last_toggle_time g))"
  using assms
proof (induction "is" arbitrary: g)
  case Nil
  then show ?case by simp
next
  case (Cons i "is")
  let ?g' = "fst (main_loop i g)"
  from Cons.prems(1) have
    le1: "unat (last_toggle_time g) \<le> unat (ms_turbo_test i)"
    and le2: "unat (ms_turbo_test i) \<le> unat (ms_turbo_set i)"
    and s1: "sorted (map unat (last_toggle_time g # turbo_reads is))"
    and s2: "sorted (map unat (ms_turbo_set i # turbo_reads is))"
    by (simp_all add: turbo_reads_def)
  show ?case
  proof (cases "TURBO_PERIOD \<le> real (unat (ms_turbo_test i - last_toggle_time g))")
    case True
    then have l: "last_toggle_time ?g' = ms_turbo_set i" and "TT ?g' \<noteq> TT g"
      by (simp_all add: main_loop_TT main_loop_last)
    then have ts: "toggles g (i # is) = ms_turbo_set i # toggles ?g' is"
      by (simp add: Let_def)
    from le1 have "unat (ms_turbo_test i - last_toggle_time g) =
        unat (ms_turbo_test i) - unat (last_toggle_time g)"
      by (simp add: unat_sub word_le_nat_alt)
    with le1 have "real (unat (ms_turbo_test i - last_toggle_time g)) =
        real (unat (ms_turbo_test i)) - real (unat (last_toggle_time g))"
      by (simp only: of_nat_diff)
    moreover from le2 have "real (unat (ms_turbo_test i)) \<le> real (unat (ms_turbo_set i))"
      by (simp only: of_nat_le_iff)
    ultimately have first:
      "TURBO_PERIOD \<le> real (unat (ms_turbo_set i)) - real (unat (last_toggle_time g))"
      using True by linarith
    from le1 le2 have mono:
      "real (unat (last_toggle_time g)) \<le> real (unat (ms_turbo_set i))"
      by (simp only: of_nat_le_iff)
    from Cons.prems(2) ts have "t = ms_turbo_set i \<or> t \<in> set (toggles ?g' is)" by simp
    then show ?thesis
    proof
      assume "t = ms_turbo_set i"
      with first show ?thesis by (simp only:)
    next
      assume "t \<in> set (toggles ?g' is)"
      moreover from s2 l have "sorted (map unat (last_toggle_time ?g' # turbo_reads is))"
        by (simp only:)
      ultimately have "TURBO_PERIOD \<le> real (unat t) - real (unat (last_toggle_time ?g'))"
        by (rule Cons.IH [rotated])
      with l mono show ?thesis by (simp only:)
    qed
  next
    case False
    then have l: "last_toggle_time ?g' = last_toggle_time g" and "TT ?g' = TT g"
      by (simp_all add: main_loop_TT main_loop_last)
    then have "toggles g (i # is) = toggles ?g' is" by (simp add: Let_def)
    with Cons.prems(2) Cons.IH [of ?g'] s1 l show ?thesis by simp
  qed
qed

lemma spaced_toggles:
  assumes "sorted (map unat (last_toggle_time g # turbo_reads is))"
  shows "spaced (toggles g is)"
  using assms
proof (induction "is" arbitrary: g)
  case Nil
  show ?case by simp
next
  case (Cons i "is")
  let ?g' = "fst (main_loop i g)"
  from Cons.prems have
    s1: "sorted (map unat (last_toggle_time g # turbo_reads is))"
    and s2: "sorted (map unat (ms_turbo_set i # turbo_reads is))"
    by (simp_all add: turbo_reads_def)
  show ?case
  proof (cases "TURBO_PERIOD \<le> real (unat (ms_turbo_test i - last_toggle_time g))")
    case True
    then have l: "last_toggle_time ?g' = ms_turbo_set i" and "TT ?g' \<noteq> TT g"
      by (simp_all add: main_loop_TT main_loop_last)
    then have ts: "toggles g (i # is) = ms_turbo_set i # toggles ?g' is"
      by (simp add: Let_def)
    from s2 l have s: "sorted (map unat (last_toggle_time ?g' # turbo_reads is))" by simp
    show ?thesis
      unfolding ts
    proof (rule spaced_Cons)
      show "spaced (toggles ?g' is)" using s by (rule Cons.IH)
    next
      fix t assume "t \<in> set (toggles ?g' is)"
      from toggles_after [OF s this] l
      show "TURBO_PERIOD \<le> real (unat t) - real (unat (ms_turbo_set i))" by simp
    qed
  next
    case False
    then have l: "last_toggle_time ?g' = last_toggle_time g" and "TT ?g' = TT g"
      by (simp_all add: main_loop_TT main_loop_last)
    then have "toggles g (i # is) = toggles ?g' is" by (simp add: Let_def)
    with Cons.IH [of ?g'] s1 l show ?thesis by simp
  qed
qed

section \<open>Turbo and the resolution of a slot\<close>

text \<open>
  Claim C3 (turbo gating). Let the slot \<open>KEYID[B]\<close> have a magnitude that denotes an
  ordinary button. Expanding \<open>HANDLE_KEY\<close> for it appends exactly one press of that
  button to the calls made so far, except when the slot is turbo-flagged (negative) and
  the turbo phase \<open>TT\<close> is off: then it changes nothing. So a turbo-flagged slot emits
  its press if and only if \<open>TT\<close> is hot, and a slot without the flag always emits it.
  In an iteration of the control loop, if button \<open>B\<close> is pressed and the slot is one of
  its three, the press is among the calls of the iteration whenever the slot has no
  turbo flag or \<open>TT\<close> is hot.
\<close>

theorem turbo_gating:
  assumes "IS_BUTTON \<bar>sint (KEYID ! B)\<bar>"
  shows "HANDLE_KEY tt KEYID B f =
           (if sint (KEYID ! B) < 0 \<and> \<not> tt then f
            else f\<lparr>calls := calls f @ [Press (KEYS2PAD ! nat \<bar>sint (KEYID ! B)\<bar>)]\<rparr>) \<and>
         (B < N_BUTTONS \<and> pressed (fst (main_loop i g)) B \<and>
          KEYID \<in> {KEY1 (fst (main_loop i g)), KEY2 (fst (main_loop i g)),
                    KEY3 (fst (main_loop i g))} \<and>
          (0 \<le> sint (KEYID ! B) \<or> TT (fst (main_loop i g))) \<longrightarrow>
            Press (KEYS2PAD ! nat \<bar>sint (KEYID ! B)\<bar>) \<in> set (snd (main_loop i g)))"
proof (intro conjI impI)
  show "HANDLE_KEY tt KEYID B f =
           (if sint (KEYID ! B) < 0 \<and> \<not> tt then f
            else f\<lparr>calls := calls f @ [Press (KEYS2PAD ! nat \<bar>sint (KEYID ! B)\<bar>)]\<rparr>)"
    unfolding HANDLE_KEY_def using assms by (rule handle_k_button)
next
  let ?g = "fst (main_loop i g)"
  assume a: "B < N_BUTTONS \<and> pressed ?g B \<and> KEYID \<in> {KEY1 ?g, KEY2 ?g, KEY3 ?g} \<and>
             (0 \<le> sint (KEYID ! B) \<or> TT ?g)"
  then have "KEYID ! B \<in> set (tick_slots ?g)"
    using slot_in_tick_slots [of B ?g KEYID] by blast
  moreover from a assms
  have "KEYS2PAD ! nat \<bar>sint (KEYID ! B)\<bar> \<in> set (slot_press (TT ?g) (KEYID ! B))"
    by (simp add: slot_press_def)
  ultimately show "Press (KEYS2PAD ! nat \<bar>sint (KEYID ! B)\<bar>) \<in> set (snd (main_loop i g))"
    by (rule press_in_main_loop)
qed

theorem turbo_gating_witness:
  "IS_BUTTON \<bar>sint (([- 12, 13] :: schar list) ! 0)\<bar> \<and>
   HANDLE_KEY False [- 12, 13] 0 \<lparr>calls = [ReleaseAll], dpad_x = 0, dpad_y = 0\<rparr> =
     \<lparr>calls = [ReleaseAll], dpad_x = 0, dpad_y = 0\<rparr> \<and>
   HANDLE_KEY True [- 12, 13] 0 \<lparr>calls = [ReleaseAll], dpad_x = 0, dpad_y = 0\<rparr> =
     \<lparr>calls = [ReleaseAll, Press NSButton_X], dpad_x = 0, dpad_y = 0\<rparr> \<and>
   IS_BUTTON \<bar>sint (([- 12, 13] :: schar list) ! 1)\<bar> \<and>
   HANDLE_KEY False [- 12, 13] 1 \<lparr>calls = [ReleaseAll], dpad_x = 0, dpad_y = 0\<rparr> =
     \<lparr>calls = [ReleaseAll, Press NSButton_Y], dpad_x = 0, dpad_y = 0\<rparr> \<and>
   IS_BUTTON \<bar>sint (KEY1 (fst (main_loop (at_ms 100 0xfe 0xff) remap00_globals)) ! 4)\<bar> \<and>
   (4::nat) < N_BUTTONS \<and> pressed (fst (main_loop (at_ms 100 0xfe 0xff) remap00_globals)) 4 \<and>
   0 \<le> sint (KEY1 (fst (main_loop (at_ms 100 0xfe 0xff) remap00_globals)) ! 4) \<and>
   Press NSButton_Y \<in> set (snd (main_loop (at_ms 100 0xfe 0xff) remap00_globals))"
proof -
  let ?f = "\<lparr>calls = [ReleaseAll], dpad_x = 0, dpad_y = 0\<rparr>"
  let ?g = "fst (main_loop (at_ms 100 0xfe 0xff) remap00_globals)"
  have a: "IS_BUTTON \<bar>sint (([- 12, 13] :: schar list) ! 0)\<bar>"
    and b: "IS_BUTTON \<bar>sint (([- 12, 13] :: schar list) ! 1)\<bar>"
    by (simp_all add: IS_BUTTON_def key_defs)
  have k: "KEY1 ?g ! 4 = 13" by code_simp
  have c: "IS_BUTTON \<bar>sint (KEY1 ?g ! 4)\<bar>" unfolding k by (simp add: IS_BUTTON_def key_defs)
  have h: "(4::nat) < N_BUTTONS" "pressed ?g 4" "0 \<le> sint (KEY1 ?g ! 4)"
    by code_simp+
  have p: "KEYS2PAD ! nat \<bar>sint (KEY1 ?g ! 4)\<bar> = NSButton_Y"
    unfolding k by (simp add: KEYS2PAD_def)
  from turbo_gating [OF c, of _ _ "at_ms 100 0xfe 0xff" remap00_globals] h
  have m: "Press NSButton_Y \<in> set (snd (main_loop (at_ms 100 0xfe 0xff) remap00_globals))"
    unfolding p by blast
  have e: "HANDLE_KEY False [- 12, 13] 0 ?f = ?f"
    "HANDLE_KEY True [- 12, 13] 0 ?f = \<lparr>calls = [ReleaseAll, Press NSButton_X], dpad_x = 0, dpad_y = 0\<rparr>"
    "HANDLE_KEY False [- 12, 13] 1 ?f = \<lparr>calls = [ReleaseAll, Press NSButton_Y], dpad_x = 0, dpad_y = 0\<rparr>"
    using turbo_gating [OF a, of False ?f] turbo_gating [OF a, of True ?f]
      turbo_gating [OF b, of False ?f]
    by (simp_all add: KEYS2PAD_def)
  show ?thesis
    by (intro conjI) (rule a b c h m e)+
qed

text \<open>
  Claim C4 (turbo never affects directions). Take two slots of the same magnitude, so
  differing at most in the turbo flag, and any two turbo phases. If the magnitude is not
  an ordinary button, both expansions of \<open>HANDLE_KEY\<close> give the same frame: the flag
  and the phase change behaviour for ordinary buttons only. If the magnitude is a
  directional key, no call is made and each accumulator receives the contribution of
  the key (and is then clamped).
\<close>

theorem turbo_never_affects_directions:
  assumes "\<bar>sint (KEYID' ! B')\<bar> = \<bar>sint (KEYID ! B)\<bar>"
  shows "(\<not> IS_BUTTON \<bar>sint (KEYID ! B)\<bar> \<longrightarrow>
            HANDLE_KEY tt' KEYID' B' f = HANDLE_KEY tt KEYID B f) \<and>
         (IS_DP \<bar>sint (KEYID ! B)\<bar> \<longrightarrow>
            calls (HANDLE_KEY tt KEYID B f) = calls f \<and>
            dpad_x (HANDLE_KEY tt KEYID B f) = clamp1 (dpad_x f + dir_x \<bar>sint (KEYID ! B)\<bar>) \<and>
            dpad_y (HANDLE_KEY tt KEYID B f) = clamp1 (dpad_y f + dir_y \<bar>sint (KEYID ! B)\<bar>))"
proof (intro conjI impI)
  assume nb: "\<not> IS_BUTTON \<bar>sint (KEYID ! B)\<bar>"
  show "HANDLE_KEY tt' KEYID' B' f = HANDLE_KEY tt KEYID B f"
  proof (cases "IS_DP \<bar>sint (KEYID ! B)\<bar>")
    case True
    then show ?thesis using assms by (simp add: HANDLE_KEY_def handle_k_dp)
  next
    case False
    then show ?thesis using nb assms by (simp add: HANDLE_KEY_def handle_k_other)
  qed
next
  assume dp: "IS_DP \<bar>sint (KEYID ! B)\<bar>"
  then show "calls (HANDLE_KEY tt KEYID B f) = calls f"
    and "dpad_x (HANDLE_KEY tt KEYID B f) = clamp1 (dpad_x f + dir_x \<bar>sint (KEYID ! B)\<bar>)"
    and "dpad_y (HANDLE_KEY tt KEYID B f) = clamp1 (dpad_y f + dir_y \<bar>sint (KEYID ! B)\<bar>)"
    by (simp_all add: HANDLE_KEY_def handle_k_dp resolve_dp)
qed

theorem turbo_never_affects_directions_witness:
  "\<bar>sint (([- 1] :: schar list) ! 0)\<bar> = \<bar>sint (([3, 1] :: schar list) ! 1)\<bar> \<and>
   \<not> IS_BUTTON \<bar>sint (([3, 1] :: schar list) ! 1)\<bar> \<and>
   IS_DP \<bar>sint (([3, 1] :: schar list) ! 1)\<bar> \<and>
   HANDLE_KEY True [- 1] 0 \<lparr>calls = [ReleaseAll], dpad_x = 0, dpad_y = 0\<rparr> =
     HANDLE_KEY False [3, 1] 1 \<lparr>calls = [ReleaseAll], dpad_x = 0, dpad_y = 0\<rparr> \<and>
   calls (HANDLE_KEY False [3, 1] 1 \<lparr>calls = [ReleaseAll], dpad_x = 0, dpad_y = 0\<rparr>) = [ReleaseAll] \<and>
   dpad_x (HANDLE_KEY False [3, 1] 1 \<lparr>calls = [ReleaseAll], dpad_x = 0, dpad_y = 0\<rparr>) = 0 \<and>
   dpad_y (HANDLE_KEY False [3, 1] 1 \<lparr>calls = [ReleaseAll], dpad_x = 0, dpad_y = 0\<rparr>) = 1"
proof -
  have a: "\<bar>sint (([- 1] :: schar list) ! 0)\<bar> = \<bar>sint (([3, 1] :: schar list) ! 1)\<bar>"
    by simp
  have b: "\<not> IS_BUTTON \<bar>sint (([3, 1] :: schar list) ! 1)\<bar>"
    and c: "IS_DP \<bar>sint (([3, 1] :: schar list) ! 1)\<bar>"
    by (simp_all add: IS_BUTTON_def IS_DP_def key_defs)
  show ?thesis
    using a b c
      turbo_never_affects_directions [OF a, of True "\<lparr>calls = [ReleaseAll], dpad_x = 0, dpad_y = 0\<rparr>" False]
    by (simp add: clamp1_def dir_x_def dir_y_def key_defs)
qed

text \<open>
  Claim C9 (the centre key). A slot holding \<open>K_DP_CENTER\<close> passes the test
  \<open>IS_DP\<close>, yet on a frame whose accumulators lie in \<open>{-1, 0, 1}\<close> (which is every
  frame of an iteration, see C10) its expansion makes no call and leaves both
  accumulators as they are, exactly as a \<open>K_NOOP\<close> slot does.
\<close>

theorem center_slot_is_noop:
  assumes "sint (KEYID ! B) = K_DP_CENTER" and "in_range f"
    and "sint (KEYID' ! B') = K_NOOP"
  shows "IS_DP (sint (KEYID ! B)) \<and> HANDLE_KEY tt KEYID B f = f \<and>
         HANDLE_KEY tt KEYID B f = HANDLE_KEY tt KEYID' B' f"
proof -
  have dp: "IS_DP \<bar>sint (KEYID ! B)\<bar>" and dp': "IS_DP (sint (KEYID ! B))"
    using assms(1) by (simp_all add: IS_DP_def key_defs)
  have "dir_x \<bar>sint (KEYID ! B)\<bar> = 0" and "dir_y \<bar>sint (KEYID ! B)\<bar> = 0"
    using assms(1) by (simp_all add: dir_x_def dir_y_def key_defs)
  then have "HANDLE_KEY tt KEYID B f = f"
    using assms(2) by (simp add: HANDLE_KEY_def handle_k_dp [OF dp] resolve_dp [OF dp] in_range_def clamp1_id)
  moreover have "HANDLE_KEY tt KEYID' B' f = f"
    using assms(3) by (simp add: HANDLE_KEY_def handle_k_other IS_BUTTON_def IS_DP_def key_defs)
  ultimately show ?thesis using dp' by simp
qed

theorem center_slot_is_noop_witness:
  "sint (([9, 0] :: schar list) ! 0) = K_DP_CENTER \<and>
   in_range \<lparr>calls = [ReleaseAll], dpad_x = 1, dpad_y = - 1\<rparr> \<and>
   sint (([9, 0] :: schar list) ! 1) = K_NOOP \<and>
   IS_DP (sint (([9, 0] :: schar list) ! 0)) \<and>
   HANDLE_KEY True [9, 0] 0 \<lparr>calls = [ReleaseAll], dpad_x = 1, dpad_y = - 1\<rparr> =
     \<lparr>calls = [ReleaseAll], dpad_x = 1, dpad_y = - 1\<rparr> \<and>
   HANDLE_KEY True [9, 0] 0 \<lparr>calls = [ReleaseAll], dpad_x = 1, dpad_y = - 1\<rparr> =
     HANDLE_KEY True [9, 0] 1 \<lparr>calls = [ReleaseAll], dpad_x = 1, dpad_y = - 1\<rparr>"
proof -
  have a: "sint (([9, 0] :: schar list) ! 0) = K_DP_CENTER"
    and c: "sint (([9, 0] :: schar list) ! 1) = K_NOOP"
    by (simp_all add: key_defs)
  have b: "in_range \<lparr>calls = [ReleaseAll], dpad_x = 1, dpad_y = - 1\<rparr>"
    by (simp add: in_range_def)
  show ?thesis
    using a b c center_slot_is_noop [OF a b c, of True] by blast
qed

section \<open>The direction dispatch\<close>

text \<open>
  Claim C5 (total, deterministic direction dispatch). For every frame whose accumulators
  lie in \<open>{-1, 0, 1}\<close> the chain of tests makes exactly one \<open>dPad\<close> call, with one
  of the nine canonical values; two such frames get the same value only if their
  accumulators agree, and the nine canonical values are pairwise different, so the nine
  vectors and the nine values correspond one to one. Every iteration of the control loop,
  from any globals and on any inputs, makes exactly one \<open>dPad\<close> call, with a canonical
  value, and whatever direction the report held before, it holds that value afterwards.
\<close>

theorem direction_dispatch:
  "(in_range f \<longrightarrow> (\<exists>d. d \<in> set canonical_dpad \<and> socd f = f\<lparr>calls := calls f @ [DPad d]\<rparr>)) \<and>
   (in_range f \<and> in_range f' \<and> last (calls (socd f)) = last (calls (socd f')) \<longrightarrow>
      dpad_x f = dpad_x f' \<and> dpad_y f = dpad_y f') \<and>
   distinct canonical_dpad \<and> length canonical_dpad = 9 \<and>
   (\<exists>d. d \<in> set canonical_dpad \<and>
      filter is_DPad (snd (main_loop i g)) = [DPad d] \<and>
      direction (foldl sink r (snd (main_loop i g))) = d)"
proof (intro conjI impI)
  assume "in_range f"
  then show "\<exists>d. d \<in> set canonical_dpad \<and> socd f = f\<lparr>calls := calls f @ [DPad d]\<rparr>"
    by (rule socd_selects)
next
  assume "in_range f \<and> in_range f' \<and> last (calls (socd f)) = last (calls (socd f'))"
  then show "dpad_x f = dpad_x f'" and "dpad_y f = dpad_y f'"
    using socd_injective [of f f'] by simp_all
next
  show "distinct canonical_dpad" by (rule distinct_canonical_dpad)
  show "length canonical_dpad = 9" by (simp add: canonical_dpad_def)
  from main_loop_calls [of i g] obtain d where d: "d \<in> set canonical_dpad"
    and c: "snd (main_loop i g) =
       ReleaseAll # map Press (resolved_presses (fst (main_loop i g))) @ [DPad d, Loop]"
    by blast
  show "\<exists>d. d \<in> set canonical_dpad \<and>
      filter is_DPad (snd (main_loop i g)) = [DPad d] \<and>
      direction (foldl sink r (snd (main_loop i g))) = d"
    unfolding c using d sink_tick is_DPad_tick by blast
qed

theorem direction_dispatch_witness:
  "in_range \<lparr>calls = [], dpad_x = 1, dpad_y = - 1\<rparr> \<and>
   in_range \<lparr>calls = [ReleaseAll], dpad_x = 1, dpad_y = - 1\<rparr> \<and>
   last (calls (socd \<lparr>calls = [], dpad_x = 1, dpad_y = - 1\<rparr>)) =
     last (calls (socd \<lparr>calls = [ReleaseAll], dpad_x = 1, dpad_y = - 1\<rparr>)) \<and>
   socd \<lparr>calls = [], dpad_x = 1, dpad_y = - 1\<rparr> =
     \<lparr>calls = [DPad NSGAMEPAD_DPAD_DOWN_RIGHT], dpad_x = 1, dpad_y = - 1\<rparr> \<and>
   filter is_DPad (snd (main_loop (at_ms 100 0x7f 0xf7) remap00_globals)) =
     [DPad NSGAMEPAD_DPAD_UP_LEFT] \<and>
   direction (foldl sink \<lparr>buttons = {NSButton_A}, direction = NSGAMEPAD_DPAD_DOWN\<rparr>
                (snd (main_loop (at_ms 100 0x7f 0xf7) remap00_globals))) =
     NSGAMEPAD_DPAD_UP_LEFT"
proof -
  have r: "in_range \<lparr>calls = [], dpad_x = 1, dpad_y = - 1\<rparr>"
    "in_range \<lparr>calls = [ReleaseAll], dpad_x = 1, dpad_y = - 1\<rparr>"
    by (simp_all add: in_range_def)
  have s: "socd \<lparr>calls = [], dpad_x = 1, dpad_y = - 1\<rparr> =
             \<lparr>calls = [DPad NSGAMEPAD_DPAD_DOWN_RIGHT], dpad_x = 1, dpad_y = - 1\<rparr>"
    "socd \<lparr>calls = [ReleaseAll], dpad_x = 1, dpad_y = - 1\<rparr> =
             \<lparr>calls = [ReleaseAll, DPad NSGAMEPAD_DPAD_DOWN_RIGHT], dpad_x = 1, dpad_y = - 1\<rparr>"
    by (simp_all add: socd_def KEYS2PAD_def key_defs)
  have m: "snd (main_loop (at_ms 100 0x7f 0xf7) remap00_globals) =
             [ReleaseAll, DPad NSGAMEPAD_DPAD_UP_LEFT, Loop]"
    by code_simp
  show ?thesis
    using r s
      direction_dispatch [of "\<lparr>calls = [], dpad_x = 1, dpad_y = - 1\<rparr>"
        "\<lparr>calls = [ReleaseAll], dpad_x = 1, dpad_y = - 1\<rparr>"
        "at_ms 100 0x7f 0xf7" remap00_globals
        "\<lparr>buttons = {NSButton_A}, direction = NSGAMEPAD_DPAD_DOWN\<rparr>"]
    by (simp add: m is_DPad_def)
qed

section \<open>The report of an iteration\<close>

text \<open>
  Claim C7 (full replacement of the report). The calls of an iteration are: one
  \<open>releaseAll\<close>, first; then a press for each slot of a pressed button that resolves to
  one, in the order of the loop, where the pressed buttons and the turbo phase are those
  of this iteration; then one \<open>dPad\<close> and \<open>loop\<close>. So whatever buttons the report held
  before, after the iteration it holds exactly the buttons resolved in this iteration.
\<close>

theorem full_replacement:
  "(\<exists>d. snd (main_loop i g) =
          ReleaseAll # map Press (resolved_presses (fst (main_loop i g))) @ [DPad d, Loop]) \<and>
   buttons (foldl sink r (snd (main_loop i g))) = set (resolved_presses (fst (main_loop i g)))"
proof -
  from main_loop_calls [of i g] obtain d where
    c: "snd (main_loop i g) =
       ReleaseAll # map Press (resolved_presses (fst (main_loop i g))) @ [DPad d, Loop]"
    by blast
  have "buttons (foldl sink r (snd (main_loop i g))) = set (resolved_presses (fst (main_loop i g)))"
    unfolding c by (simp only: sink_tick)
  with c show ?thesis by blast
qed

section \<open>The accumulators\<close>

text \<open>
  Claim C10 (accumulator invariant). Starting an iteration from \<open>(0, 0)\<close>, the
  accumulators lie in \<open>{-1, 0, 1}\<close> when the loop reaches any button \<open>b\<close> and after
  each of the three expansions of \<open>HANDLE_KEY\<close> for it. So they do when the chain of
  tests is reached, and the chain then makes its \<open>dPad\<close> call with a canonical value.
\<close>

theorem accumulator_invariant:
  assumes "b < N_BUTTONS"
  shows "(let f = foldl (button_body g) \<lparr>calls = [ReleaseAll], dpad_x = 0, dpad_y = 0\<rparr> [0..<b];
              f1 = HANDLE_KEY (TT g) (KEY1 g) b f;
              f2 = HANDLE_KEY (TT g) (KEY2 g) b f1;
              f3 = HANDLE_KEY (TT g) (KEY3 g) b f2
          in in_range f \<and> in_range f1 \<and> in_range f2 \<and> in_range f3) \<and>
         in_range (snd (tick_frame i g0)) \<and>
         (\<exists>d. d \<in> set canonical_dpad \<and>
            socd (snd (tick_frame i g0)) =
              (snd (tick_frame i g0))\<lparr>calls := calls (snd (tick_frame i g0)) @ [DPad d]\<rparr>)"
proof -
  have "in_range (foldl (button_body g) \<lparr>calls = [ReleaseAll], dpad_x = 0, dpad_y = 0\<rparr> [0..<b])"
    by (rule buttons_in_range) (rule frame0_in_range)
  then have "let f = foldl (button_body g) \<lparr>calls = [ReleaseAll], dpad_x = 0, dpad_y = 0\<rparr> [0..<b];
              f1 = HANDLE_KEY (TT g) (KEY1 g) b f;
              f2 = HANDLE_KEY (TT g) (KEY2 g) b f1;
              f3 = HANDLE_KEY (TT g) (KEY3 g) b f2
          in in_range f \<and> in_range f1 \<and> in_range f2 \<and> in_range f3"
    by (simp add: Let_def HANDLE_KEY_def handle_k_in_range)
  then show ?thesis
    using tick_frame_in_range [of i g0] socd_selects [OF tick_frame_in_range, of i g0]
    by blast
qed

theorem accumulator_invariant_witness:
  "(3::nat) < N_BUTTONS \<and>
   snd (tick_frame (at_ms 100 0x7f 0xf7) remap00_globals) =
     \<lparr>calls = [ReleaseAll], dpad_x = - 1, dpad_y = 1\<rparr> \<and>
   (let f = foldl (button_body (fst (tick_frame (at_ms 100 0x7f 0xf7) remap00_globals)))
              \<lparr>calls = [ReleaseAll], dpad_x = 0, dpad_y = 0\<rparr> [0..<3];
        f1 = HANDLE_KEY (TT (fst (tick_frame (at_ms 100 0x7f 0xf7) remap00_globals)))
               (KEY1 (fst (tick_frame (at_ms 100 0x7f 0xf7) remap00_globals))) 3 f;
        f2 = HANDLE_KEY (TT (fst (tick_frame (at_ms 100 0x7f 0xf7) remap00_globals)))
               (KEY2 (fst (tick_frame (at_ms 100 0x7f 0xf7) remap00_globals))) 3 f1;
        f3 = HANDLE_KEY (TT (fst (tick_frame (at_ms 100 0x7f 0xf7) remap00_globals)))
               (KEY3 (fst (tick_frame (at_ms 100 0x7f 0xf7) remap00_globals))) 3 f2
    in in_range f \<and> in_range f1 \<and> in_range f2 \<and> in_range f3) \<and>
   in_range (snd (tick_frame (at_ms 100 0x7f 0xf7) remap00_globals))"
proof -
  have b: "(3::nat) < N_BUTTONS" by (simp add: N_BUTTONS_def)
  have e: "snd (tick_frame (at_ms 100 0x7f 0xf7) remap00_globals) =
     \<lparr>calls = [ReleaseAll], dpad_x = - 1, dpad_y = 1\<rparr>"
    by code_simp
  show ?thesis
    using b e
      accumulator_invariant [OF b, of "fst (tick_frame (at_ms 100 0x7f 0xf7) remap00_globals)"
        "at_ms 100 0x7f 0xf7" remap00_globals]
    by blast
qed

section \<open>Summation of the direction contributions\<close>

text \<open>
  Claim C2, as amended (clamping after every contribution). The accumulators of an
  iteration are obtained by adding the contributions of the slots of the pressed buttons
  in the order of the loop, clamping the axis to \<open>{-1, 0, 1}\<close> after every single
  contribution. On an axis where all running sums of the contributions lie in
  \<open>[-1, 1]\<close>, that is the clamped exact sum.
\<close>

theorem clamp_each_contribution:
  "dpad_x (snd (tick_frame i g)) = sat_x (tick_slots (fst (tick_frame i g))) \<and>
   dpad_y (snd (tick_frame i g)) = sat_y (tick_slots (fst (tick_frame i g))) \<and>
   (within1 0 (map (\<lambda>k. dir_x \<bar>sint k\<bar>) (tick_slots (fst (tick_frame i g)))) \<longrightarrow>
      dpad_x (snd (tick_frame i g)) = clamp1 (sum_x (tick_slots (fst (tick_frame i g))))) \<and>
   (within1 0 (map (\<lambda>k. dir_y \<bar>sint k\<bar>) (tick_slots (fst (tick_frame i g)))) \<longrightarrow>
      dpad_y (snd (tick_frame i g)) = clamp1 (sum_y (tick_slots (fst (tick_frame i g)))))"
proof -
  have x: "sat_x ks = clamp1 (sum_x ks)" if "within1 0 (map (\<lambda>k. dir_x \<bar>sint k\<bar>) ks)" for ks
    using within1_clamp [OF that] by (simp add: sat_x_def sum_x_def foldl_map)
  have y: "sat_y ks = clamp1 (sum_y ks)" if "within1 0 (map (\<lambda>k. dir_y \<bar>sint k\<bar>) ks)" for ks
    using within1_clamp [OF that] by (simp add: sat_y_def sum_y_def foldl_map)
  show ?thesis using tick_frame_acc [of i g] x y by simp
qed

theorem clamp_each_contribution_witness:
  "tick_slots (fst (tick_frame (at_ms 100 0x7f 0xd7) remap00_globals)) =
     [7, 0, 0, 3, 0, 0, 1, 0, 0] \<and>
   within1 0 (map (\<lambda>k. dir_x \<bar>sint k\<bar>)
     (tick_slots (fst (tick_frame (at_ms 100 0x7f 0xd7) remap00_globals)))) \<and>
   within1 0 (map (\<lambda>k. dir_y \<bar>sint k\<bar>)
     (tick_slots (fst (tick_frame (at_ms 100 0x7f 0xd7) remap00_globals)))) \<and>
   dpad_x (snd (tick_frame (at_ms 100 0x7f 0xd7) remap00_globals)) = 0 \<and>
   dpad_y (snd (tick_frame (at_ms 100 0x7f 0xd7) remap00_globals)) = 1 \<and>
   clamp1 (sum_x (tick_slots (fst (tick_frame (at_ms 100 0x7f 0xd7) remap00_globals)))) = 0 \<and>
   clamp1 (sum_y (tick_slots (fst (tick_frame (at_ms 100 0x7f 0xd7) remap00_globals)))) = 1"
proof -
  have s: "tick_slots (fst (tick_frame (at_ms 100 0x7f 0xd7) remap00_globals)) =
     [7, 0, 0, 3, 0, 0, 1, 0, 0]"
    by code_simp
  have w: "within1 0 (map (\<lambda>k. dir_x \<bar>sint k\<bar>) ([7, 0, 0, 3, 0, 0, 1, 0, 0] :: schar list))"
    "within1 0 (map (\<lambda>k. dir_y \<bar>sint k\<bar>) ([7, 0, 0, 3, 0, 0, 1, 0, 0] :: schar list))"
    by (simp_all add: dir_x_def dir_y_def key_defs)
  have c: "clamp1 (sum_x ([7, 0, 0, 3, 0, 0, 1, 0, 0] :: schar list)) = 0"
    "clamp1 (sum_y ([7, 0, 0, 3, 0, 0, 1, 0, 0] :: schar list)) = 1"
    by (simp_all add: clamp1_def dir_x_def dir_y_def sum_x_def sum_y_def key_defs)
  show ?thesis
    using w c clamp_each_contribution [of "at_ms 100 0x7f 0xd7" remap00_globals]
    unfolding s by simp
qed

text \<open>
  Claim C2 as stated, that the accumulators are the clamped exact sums, fails. With the
  row \<open>remap10_down\<close> and buttons 3, 7 and 9 held (bits 7 and 4 of port A and bit 0 of
  port B low), the slots visited are up, L, up, X, down. The second up saturates \<open>dpad_y\<close>
  at 1 and down brings it to 0: the D-pad is centred, while the exact sum on y is 1.
\<close>

theorem clamp_after_summation_counterexample:
  "tick_slots (fst (tick_frame (at_ms 100 0x6f 0xfe) remap10_down_globals)) =
     map word_of_int [K_DP_UP, K_NOOP, K_NOOP, K_L, K_DP_UP, K_NOOP, K_X, K_DP_DOWN, K_NOOP] \<and>
   sum_y (tick_slots (fst (tick_frame (at_ms 100 0x6f 0xfe) remap10_down_globals))) = 1 \<and>
   clamp1 (sum_y (tick_slots (fst (tick_frame (at_ms 100 0x6f 0xfe) remap10_down_globals)))) = 1 \<and>
   dpad_y (snd (tick_frame (at_ms 100 0x6f 0xfe) remap10_down_globals)) = 0 \<and>
   dpad_y (snd (tick_frame (at_ms 100 0x6f 0xfe) remap10_down_globals)) \<noteq>
     clamp1 (sum_y (tick_slots (fst (tick_frame (at_ms 100 0x6f 0xfe) remap10_down_globals)))) \<and>
   snd (main_loop (at_ms 100 0x6f 0xfe) remap10_down_globals) =
     [ReleaseAll, Press NSButton_LeftTrigger, Press NSButton_X,
      DPad NSGAMEPAD_DPAD_CENTERED, Loop]"
  by code_simp

section \<open>The turbo clock\<close>

text \<open>
  Claim C6 (turbo clock). The sequence of values of \<open>TT\<close> and the sequence of toggle
  times depend only on the clock readings of the turbo block and on the initial \<open>TT\<close>
  and \<open>last_toggle_time\<close>: two runs that agree on these agree on both sequences,
  whatever the buttons and the key tables. In one iteration \<open>TT\<close> is complemented once
  if at least \<open>TURBO_PERIOD\<close> has elapsed since the last toggle and is left alone
  otherwise, so a run has at most one toggle per iteration. If the clock readings of the
  turbo block never decrease (starting from the last toggle time), any two successive
  toggle times are at least \<open>TURBO_PERIOD\<close> apart.
\<close>

theorem turbo_clock:
  "(map (\<lambda>i. (ms_turbo_test i, ms_turbo_set i)) is =
      map (\<lambda>i. (ms_turbo_test i, ms_turbo_set i)) is' \<and>
    TT g = TT g' \<and> last_toggle_time g = last_toggle_time g' \<longrightarrow>
      map TT (run g is) = map TT (run g' is') \<and> toggles g is = toggles g' is') \<and>
   TT (fst (main_loop i g)) =
     (if TURBO_PERIOD \<le> real (unat (ms_turbo_test i - last_toggle_time g))
      then \<not> TT g else TT g) \<and>
   length (toggles g is) \<le> length is \<and>
   (sorted (map unat (last_toggle_time g # turbo_reads is)) \<longrightarrow> spaced (toggles g is))"
  using run_toggles_cong [of "is" is' g g'] main_loop_TT [of i g] length_toggles [of g "is"]
    spaced_toggles [of g "is"]
  by blast

theorem turbo_clock_witness:
  "map (\<lambda>i. (ms_turbo_test i, ms_turbo_set i)) [at_ms 10 0xff 0xff, at_ms 14 0xff 0xff, at_ms 20 0xff 0xff, at_ms 28 0xff 0xff, at_ms 50 0xff 0xff] =
     map (\<lambda>i. (ms_turbo_test i, ms_turbo_set i)) [at_ms 10 0x6f 0xfe, at_ms 14 0x6f 0xfe, at_ms 20 0xff 0xff, at_ms 28 0x7f 0xf7, at_ms 50 0xff 0xff] \<and>
   TT remap00_globals = TT remap10_down_globals \<and>
   last_toggle_time remap00_globals = last_toggle_time remap10_down_globals \<and>
   sorted (map unat (last_toggle_time remap00_globals # turbo_reads [at_ms 10 0xff 0xff, at_ms 14 0xff 0xff, at_ms 20 0xff 0xff, at_ms 28 0xff 0xff, at_ms 50 0xff 0xff])) \<and>
   map TT (run remap00_globals [at_ms 10 0xff 0xff, at_ms 14 0xff 0xff, at_ms 20 0xff 0xff, at_ms 28 0xff 0xff, at_ms 50 0xff 0xff]) = [False, True, True, False, True] \<and>
   map TT (run remap10_down_globals [at_ms 10 0x6f 0xfe, at_ms 14 0x6f 0xfe, at_ms 20 0xff 0xff, at_ms 28 0x7f 0xf7, at_ms 50 0xff 0xff]) = [False, True, True, False, True] \<and>
   toggles remap00_globals [at_ms 10 0xff 0xff, at_ms 14 0xff 0xff, at_ms 20 0xff 0xff, at_ms 28 0xff 0xff, at_ms 50 0xff 0xff] = [14, 28, 50] \<and>
   toggles remap10_down_globals [at_ms 10 0x6f 0xfe, at_ms 14 0x6f 0xfe, at_ms 20 0xff 0xff, at_ms 28 0x7f 0xf7, at_ms 50 0xff 0xff] = [14, 28, 50] \<and>
   length (toggles remap00_globals [at_ms 10 0xff 0xff, at_ms 14 0xff 0xff, at_ms 20 0xff 0xff, at_ms 28 0xff 0xff, at_ms 50 0xff 0xff]) \<le> length [at_ms 10 0xff 0xff, at_ms 14 0xff 0xff, at_ms 20 0xff 0xff, at_ms 28 0xff 0xff, at_ms 50 0xff 0xff] \<and>
   spaced (toggles remap00_globals [at_ms 10 0xff 0xff, at_ms 14 0xff 0xff, at_ms 20 0xff 0xff, at_ms 28 0xff 0xff, at_ms 50 0xff 0xff])"
proof -
  have h: "map (\<lambda>i. (ms_turbo_test i, ms_turbo_set i)) [at_ms 10 0xff 0xff, at_ms 14 0xff 0xff, at_ms 20 0xff 0xff, at_ms 28 0xff 0xff, at_ms 50 0xff 0xff] =
     map (\<lambda>i. (ms_turbo_test i, ms_turbo_set i)) [at_ms 10 0x6f 0xfe, at_ms 14 0x6f 0xfe, at_ms 20 0xff 0xff, at_ms 28 0x7f 0xf7, at_ms 50 0xff 0xff]"
    "TT remap00_globals = TT remap10_down_globals"
    "last_toggle_time remap00_globals = last_toggle_time remap10_down_globals"
    "sorted (map unat (last_toggle_time remap00_globals # turbo_reads [at_ms 10 0xff 0xff, at_ms 14 0xff 0xff, at_ms 20 0xff 0xff, at_ms 28 0xff 0xff, at_ms 50 0xff 0xff]))"
    by code_simp+
  have e: "map TT (run remap00_globals [at_ms 10 0xff 0xff, at_ms 14 0xff 0xff, at_ms 20 0xff 0xff, at_ms 28 0xff 0xff, at_ms 50 0xff 0xff]) = [False, True, True, False, True]"
    "toggles remap00_globals [at_ms 10 0xff 0xff, at_ms 14 0xff 0xff, at_ms 20 0xff 0xff, at_ms 28 0xff 0xff, at_ms 50 0xff 0xff] = [14, 28, 50]"
    by code_simp+
  note t = turbo_clock [of "[at_ms 10 0xff 0xff, at_ms 14 0xff 0xff, at_ms 20 0xff 0xff, at_ms 28 0xff 0xff, at_ms 50 0xff 0xff]" "[at_ms 10 0x6f 0xfe, at_ms 14 0x6f 0xfe, at_ms 20 0xff 0xff, at_ms 28 0x7f 0xf7, at_ms 50 0xff 0xff]" remap00_globals remap10_down_globals]
  from t h(1,2,3) have d1: "map TT (run remap00_globals [at_ms 10 0xff 0xff, at_ms 14 0xff 0xff, at_ms 20 0xff 0xff, at_ms 28 0xff 0xff, at_ms 50 0xff 0xff]) = map TT (run remap10_down_globals [at_ms 10 0x6f 0xfe, at_ms 14 0x6f 0xfe, at_ms 20 0xff 0xff, at_ms 28 0x7f 0xf7, at_ms 50 0xff 0xff])"
    and d2: "toggles remap00_globals [at_ms 10 0xff 0xff, at_ms 14 0xff 0xff, at_ms 20 0xff 0xff, at_ms 28 0xff 0xff, at_ms 50 0xff 0xff] = toggles remap10_down_globals [at_ms 10 0x6f 0xfe, at_ms 14 0x6f 0xfe, at_ms 20 0xff 0xff, at_ms 28 0x7f 0xf7, at_ms 50 0xff 0xff]"
    by blast+
  from t h(4) have s: "spaced (toggles remap00_globals [at_ms 10 0xff 0xff, at_ms 14 0xff 0xff, at_ms 20 0xff 0xff, at_ms 28 0xff 0xff, at_ms 50 0xff 0xff])" by blast
  from t have l: "length (toggles remap00_globals [at_ms 10 0xff 0xff, at_ms 14 0xff 0xff, at_ms 20 0xff 0xff, at_ms 28 0xff 0xff, at_ms 50 0xff 0xff]) \<le> length [at_ms 10 0xff 0xff, at_ms 14 0xff 0xff, at_ms 20 0xff 0xff, at_ms 28 0xff 0xff, at_ms 50 0xff 0xff]" by blast
  note e' = trans [OF d1 [symmetric] e(1)] trans [OF d2 [symmetric] e(2)]
  show ?thesis
    by (intro conjI) (rule h e e' l s)+
qed

section \<open>The configuration number\<close>

text \<open>
  Claim C8 (configuration range). For every value of the four configuration booleans the
  configuration number, and so the \<open>CFG\<close> that startup stores and uses as the row index
  into \<open>MAPPINGS\<close>, is below \<open>N_REMAPPINGS\<close>, which is 16.
\<close>

theorem configuration_in_range:
  "unat (cfg_number cfg1 cfg2 cfg3 cfg4) < N_REMAPPINGS \<and>
   unat (CFG (startup MAPPINGS cfg1 cfg2 cfg3 v4 g)) < N_REMAPPINGS \<and> N_REMAPPINGS = 16"
proof -
  have "unat (cfg_number c1 c2 c3 c4) < 16" for c1 c2 c3 c4
    by (cases c1; cases c2; cases c3; cases c4) (simp_all add: cfg_number_def)
  then show ?thesis by (simp add: startup_def Let_def N_REMAPPINGS_def)
qed

section \<open>Debouncing\<close>

text \<open>
  Claim C1 (bounce rejection) does not hold of the code. Each iteration stores the raw
  reading into \<open>GPIOA_state\<close> right after reading it (line 19), before the debouncing
  block, so the test \<open>reading_gpioa != GPIOA_state\<close> of that block never succeeds and
  the state used for detecting presses is always the raw reading (lemma
  \<open>main_loop_states\<close>). Here the raw reading of port A drops bit 0 (button 4) at
  100 ms and is back one millisecond later: the state follows it, from \<open>0xff\<close> to
  \<open>0xfe\<close> and back, and the first iteration presses Y.
\<close>

theorem bounce_reaches_stable_state:
  "GPIOA_state remap00_globals = 0xff \<and>
   map GPIOA_state (run remap00_globals [at_ms 100 0xfe 0xff, at_ms 101 0xff 0xff]) =
     [0xfe, 0xff] \<and>
   snd (main_loop (at_ms 100 0xfe 0xff) remap00_globals) =
     [ReleaseAll, Press NSButton_Y, DPad NSGAMEPAD_DPAD_CENTERED, Loop]"
  by code_simp

end
